theory Spec2Isabelle
  imports Main
begin

section \<open>zipios::DirectoryCollection (src/directorycollection.cpp)\<close>

text \<open>
  A shallow embedding of \<^verbatim>\<open>DirectoryCollection\<close>. The object is a record of its
  members, every method takes the object and returns it updated (the \<^verbatim>\<open>const\<close>
  query methods too: \<^verbatim>\<open>loadEntries()\<close> writes \<^verbatim>\<open>m_entries_loaded\<close> and, through
  \<^verbatim>\<open>const_cast\<close>, \<^verbatim>\<open>m_entries\<close>). An exception is a value \<open>Inl e\<close>; the object
  keeps what was written to it before the exception was raised. Every method also
  returns the directories it has iterated (one item per \<^verbatim>\<open>dir_it\<close> constructed), so
  that "does not touch the filesystem" is a statement about the model.
\<close>

subsection \<open>Collaborators that are not part of this file\<close>

type_synonym FilePath = string

text \<open>
  Modelled from the spec: \<^verbatim>\<open>FilePath::operator +\<close> is declared elsewhere; the spec
  asks for "path concatenation (root + relative segment)". \<^verbatim>\<open>load(FilePath())\<close>
  iterates \<^verbatim>\<open>m_filepath + subdir\<close> with an empty \<^verbatim>\<open>subdir\<close> to list the root itself, so an
  empty operand is neutral; two non-empty operands are joined by the separator.
\<close>

definition FilePath_plus :: "FilePath \<Rightarrow> FilePath \<Rightarrow> FilePath" where
  "FilePath_plus a b = (if a = [] then b else if b = [] then a else a @ ''/'' @ b)"

text \<open>
  The directory iterator \<^verbatim>\<open>boost::filesystem::dir_it\<close> (directory.hpp) is not part of
  this file. What it returns is a parameter of the model: a directory listing is the
  sequence of names the iterator yields, in the order it yields them, pseudo entries
  included, each with the kind of the node it names and, for a directory, the listing
  a nested iterator would yield. \<open>Raises\<close> is a directory whose iteration throws.
\<close>

datatype node = File | Dir listing
and listing = Listing "(string \<times> node) list" | Raises

fun is_dir :: "node \<Rightarrow> bool" where
  "is_dir File = False"
| "is_dir (Dir l) = True"

record filesystem =
  isDirectory :: "FilePath \<Rightarrow> bool"
  dir_it :: "FilePath \<Rightarrow> listing"
  ifstream_good :: "FilePath \<Rightarrow> bool"

datatype error = InvalidStateException | IOException

text \<open>
  Modelled from the spec: \<^verbatim>\<open>DirectoryEntry\<close> is declared elsewhere. The record keeps
  the two constructor arguments as the source passes them (the file path first, then
  a string that is empty at both call sites) and the kind of the node ("Entry
  Metadata: name, is_directory"). \<^verbatim>\<open>getName()\<close> is the file path: it is what
  \<^verbatim>\<open>getInputStream\<close> hands to \<^verbatim>\<open>std::ifstream\<close> to open the file.
\<close>

record DirectoryEntry =
  e_filename :: FilePath
  e_comment :: string
  e_is_directory :: bool

definition DirectoryEntry_ctor :: "bool \<Rightarrow> FilePath \<Rightarrow> string \<Rightarrow> DirectoryEntry" where
  "DirectoryEntry_ctor kind path comment =
     \<lparr>e_filename = path, e_comment = comment, e_is_directory = kind\<rparr>"

definition getName :: "DirectoryEntry \<Rightarrow> string" where
  "getName e = e_filename e"

definition entry_isDirectory :: "DirectoryEntry \<Rightarrow> bool" where
  "entry_isDirectory e = e_is_directory e"

text \<open>\<^verbatim>\<open>std::ifstream(name, std::ios::in | std::ios::binary)\<close>: the constructor never
  throws; a file that cannot be opened gives a stream in the failed state.\<close>

record ifstream =
  s_path :: string
  s_binary :: bool
  s_good :: bool

definition std_ifstream :: "filesystem \<Rightarrow> string \<Rightarrow> ifstream" where
  "std_ifstream fs name = \<lparr>s_path = name, s_binary = True, s_good = ifstream_good fs name\<rparr>"

subsection \<open>The object\<close>

record DirectoryCollection =
  m_filename :: string
  m_entries :: "DirectoryEntry list"
  m_valid :: bool
  m_entries_loaded :: bool
  m_recursive :: bool
  m_filepath :: FilePath

type_synonym 'a outcome = "(error + 'a) \<times> DirectoryCollection \<times> FilePath list"

datatype MatchPath = IGNORE | MATCH

text \<open>The default constructor: the members keep their initial values (the comments
  of the source give them; \<^verbatim>\<open>FileCollection\<close> starts invalid, without entries, under
  the placeholder name that \<^verbatim>\<open>close()\<close> restores).\<close>

definition DirectoryCollection_default :: DirectoryCollection where
  "DirectoryCollection_default =
     \<lparr>m_filename = ''-'', m_entries = [], m_valid = False,
      m_entries_loaded = False, m_recursive = True, m_filepath = []\<rparr>"

definition DirectoryCollection_path :: "filesystem \<Rightarrow> string \<Rightarrow> bool \<Rightarrow> DirectoryCollection" where
  "DirectoryCollection_path fs path recursive =
     \<lparr>m_filename = path, m_entries = [], m_valid = isDirectory fs path,
      m_entries_loaded = False, m_recursive = recursive, m_filepath = path\<rparr>"

definition close :: "DirectoryCollection \<Rightarrow> DirectoryCollection" where
  "close c = c\<lparr>m_valid := False, m_entries_loaded := False, m_entries := [],
               m_filename := ''-'', m_filepath := []\<rparr>"

text \<open>Modelled from the spec: \<^verbatim>\<open>FileCollection::mustBeValid\<close> is declared elsewhere;
  "the collection must be valid; if not, this operation fails with an InvalidState
  error".\<close>

definition mustBeValid :: "DirectoryCollection \<Rightarrow> error + unit" where
  "mustBeValid c = (if m_valid c then Inr () else Inl InvalidStateException)"

subsection \<open>The scan\<close>

definition push_back :: "DirectoryEntry \<Rightarrow> DirectoryCollection \<Rightarrow> DirectoryCollection" where
  "push_back ent c = c\<lparr>m_entries := m_entries c @ [ent]\<rparr>"

text \<open>\<^verbatim>\<open>load(subdir)\<close>: \<open>load\<close> is the construction of the iterator over
  \<^verbatim>\<open>m_filepath + subdir\<close>, \<open>load_loop\<close> the body of the \<^verbatim>\<open>for\<close> loop over what is left
  of the listing.\<close>

fun load :: "listing \<Rightarrow> FilePath \<Rightarrow> DirectoryCollection \<Rightarrow> unit outcome"
and load_loop :: "(string \<times> node) list \<Rightarrow> FilePath \<Rightarrow> DirectoryCollection \<Rightarrow> unit outcome"
where
  "load Raises subdir c = (Inl IOException, c, [FilePath_plus (m_filepath c) subdir])"
| "load (Listing its) subdir c =
     (case load_loop its subdir c of
        (r, c', tr) \<Rightarrow> (r, c', FilePath_plus (m_filepath c) subdir # tr))"
| "load_loop [] subdir c = (Inr (), c, [])"
| "load_loop ((it, n) # rest) subdir c =
     (if it \<noteq> ''.'' \<and> it \<noteq> ''..'' then
        let ent = DirectoryEntry_ctor (is_dir n)
                    (FilePath_plus (FilePath_plus (m_filepath c) subdir) it) '''';
            c1 = push_back ent c
        in (case n of
              Dir l \<Rightarrow>
                if m_recursive c1 \<and> entry_isDirectory ent then
                  (case load l (FilePath_plus subdir it) c1 of
                     (Inl e, c2, tr) \<Rightarrow> (Inl e, c2, tr)
                   | (Inr u, c2, tr) \<Rightarrow>
                       (case load_loop rest subdir c2 of
                          (r, c3, tr') \<Rightarrow> (r, c3, tr @ tr')))
                else load_loop rest subdir c1
            | File \<Rightarrow> load_loop rest subdir c1)
      else load_loop rest subdir c)"

definition loadEntries :: "filesystem \<Rightarrow> DirectoryCollection \<Rightarrow> unit outcome" where
  "loadEntries fs c =
     (case mustBeValid c of
        Inl e \<Rightarrow> (Inl e, c, [])
      | Inr u \<Rightarrow>
          if \<not> m_entries_loaded c then
            let c1 = c\<lparr>m_entries_loaded := True\<rparr>;
                ent = DirectoryEntry_ctor (isDirectory fs (m_filepath c1)) (m_filepath c1) '''';
                c2 = push_back ent c1
            in load (dir_it fs (FilePath_plus (m_filepath c2) [])) [] c2
          else (Inr (), c, []))"

subsection \<open>The queries\<close>

text \<open>Modelled from the spec: \<^verbatim>\<open>FileCollection::entries\<close> is declared elsewhere;
  it "returns a copy of the cache".\<close>

definition FileCollection_entries :: "DirectoryCollection \<Rightarrow> DirectoryEntry list" where
  "FileCollection_entries c = m_entries c"

definition entries :: "filesystem \<Rightarrow> DirectoryCollection \<Rightarrow> (DirectoryEntry list) outcome" where
  "entries fs c =
     (case loadEntries fs c of
        (Inl e, c', tr) \<Rightarrow> (Inl e, c', tr)
      | (Inr u, c', tr) \<Rightarrow> (Inr (FileCollection_entries c'), c', tr))"

text \<open>The final path component of a name: what follows its last separator.\<close>

definition basename :: "string \<Rightarrow> string" where
  "basename s = rev (takeWhile (\<lambda>ch. ch \<noteq> CHR ''/'') (rev s))"

text \<open>Modelled from the spec: the name the lookup compares is declared elsewhere,
  with \<^verbatim>\<open>FileCollection::getEntry\<close>. "name (path relative to the collection root, empty
  string for the root entry itself)". The entries are built with the root path joined
  in front, so the relative name of an entry is its path without the root and the
  separator that follows it.\<close>

definition relative_name :: "FilePath \<Rightarrow> DirectoryEntry \<Rightarrow> string" where
  "relative_name root e =
     (if getName e = root then []
      else if root \<noteq> [] \<and> take (length root + 1) (getName e) = root @ ''/''
      then drop (length root + 1) (getName e)
      else getName e)"

text \<open>Modelled from the spec: \<^verbatim>\<open>FileCollection::getEntry\<close> and its two match
  predicates are declared elsewhere. "scans the cache for the first entry whose
  identity matches name under the given mode: MATCH mode: exact equality between the
  entry's relative name and name. IGNORE mode: equality of only the final path
  component (basename), ignoring any directory prefix on either side. Returns "not
  found" (a null/empty result, not a failure) when no entry matches. First match in
  cache order wins."\<close>

fun matches :: "FilePath \<Rightarrow> MatchPath \<Rightarrow> string \<Rightarrow> DirectoryEntry \<Rightarrow> bool" where
  "matches root MATCH name e = (relative_name root e = name)"
| "matches root IGNORE name e = (basename (relative_name root e) = basename name)"

definition FileCollection_getEntry ::
  "DirectoryCollection \<Rightarrow> string \<Rightarrow> MatchPath \<Rightarrow> DirectoryEntry option" where
  "FileCollection_getEntry c name matchpath =
     List.find (matches (m_filepath c) matchpath name) (m_entries c)"

definition getEntry ::
  "filesystem \<Rightarrow> DirectoryCollection \<Rightarrow> string \<Rightarrow> MatchPath \<Rightarrow> (DirectoryEntry option) outcome" where
  "getEntry fs c name matchpath =
     (case loadEntries fs c of
        (Inl e, c', tr) \<Rightarrow> (Inl e, c', tr)
      | (Inr u, c', tr) \<Rightarrow> (Inr (FileCollection_getEntry c' name matchpath), c', tr))"

definition getInputStream ::
  "filesystem \<Rightarrow> DirectoryCollection \<Rightarrow> string \<Rightarrow> MatchPath \<Rightarrow> (ifstream option) outcome" where
  "getInputStream fs c entry_name matchpath =
     (case getEntry fs c entry_name matchpath of
        (Inl e, c', tr) \<Rightarrow> (Inl e, c', tr)
      | (Inr ent, c', tr) \<Rightarrow>
          (case ent of
             None \<Rightarrow> (Inr None, c', tr)
           | Some en \<Rightarrow>
               if entry_isDirectory en then (Inr None, c', tr)
               else (Inr (Some (std_ifstream fs (getName en))), c', tr)))"

definition size_entries :: "filesystem \<Rightarrow> DirectoryCollection \<Rightarrow> nat outcome" where
  "size_entries fs c =
     (case loadEntries fs c of
        (Inl e, c', tr) \<Rightarrow> (Inl e, c', tr)
      | (Inr u, c', tr) \<Rightarrow> (Inr (length (m_entries c')), c', tr))"

subsection \<open>Objects in a store\<close>

text \<open>
  \<^verbatim>\<open>clone()\<close> returns a pointer to a new object, so the objects live in a store: the
  address of an object is its index. Modelled from the spec: the copy constructor that
  \<^verbatim>\<open>clone()\<close> calls is declared elsewhere; it "produces an independent copy of the
  collection's current state (root path, recursion flag, validity, and - if already
  loaded - the cached entries)". The vector of entries is a member held by value.
\<close>

type_synonym store = "DirectoryCollection list"

definition DirectoryCollection_copy :: "DirectoryCollection \<Rightarrow> DirectoryCollection" where
  "DirectoryCollection_copy src =
     \<lparr>m_filename = m_filename src, m_entries = m_entries src, m_valid = m_valid src,
      m_entries_loaded = m_entries_loaded src, m_recursive = m_recursive src,
      m_filepath = m_filepath src\<rparr>"

definition clone :: "store \<Rightarrow> nat \<Rightarrow> (nat \<times> store) option" where
  "clone h this =
     (if this < length h then Some (length h, h @ [DirectoryCollection_copy (h ! this)])
      else None)"

definition close_at :: "store \<Rightarrow> nat \<Rightarrow> store option" where
  "close_at h this = (if this < length h then Some (h[this := close (h ! this)]) else None)"

subsection \<open>Sequences of calls on one object\<close>

datatype call = Close | Entries | GetEntry string MatchPath
  | GetInputStream string MatchPath | Size

text \<open>The object after a call, and the directories the call has iterated.\<close>

fun after :: "filesystem \<Rightarrow> call \<Rightarrow> DirectoryCollection \<Rightarrow> DirectoryCollection" where
  "after fs Close c = close c"
| "after fs Entries c = fst (snd (entries fs c))"
| "after fs (GetEntry n m) c = fst (snd (getEntry fs c n m))"
| "after fs (GetInputStream n m) c = fst (snd (getInputStream fs c n m))"
| "after fs Size c = fst (snd (size_entries fs c))"

fun iterated :: "filesystem \<Rightarrow> call \<Rightarrow> DirectoryCollection \<Rightarrow> FilePath list" where
  "iterated fs Close c = []"
| "iterated fs Entries c = snd (snd (entries fs c))"
| "iterated fs (GetEntry n m) c = snd (snd (getEntry fs c n m))"
| "iterated fs (GetInputStream n m) c = snd (snd (getInputStream fs c n m))"
| "iterated fs Size c = snd (snd (size_entries fs c))"

fun after_all :: "filesystem \<Rightarrow> call list \<Rightarrow> DirectoryCollection \<Rightarrow> DirectoryCollection" where
  "after_all fs [] c = c"
| "after_all fs (q # qs) c = after_all fs qs (after fs q c)"

fun iterated_all :: "filesystem \<Rightarrow> call list \<Rightarrow> DirectoryCollection \<Rightarrow> FilePath list" where
  "iterated_all fs [] c = []"
| "iterated_all fs (q # qs) c = iterated fs q c @ iterated_all fs qs (after fs q c)"

fun is_query :: "call \<Rightarrow> bool" where
  "is_query Close = False"
| "is_query q = True"

text \<open>The objects a program can hold: built by a constructor, then used through the
  methods, over one filesystem.\<close>

inductive reachable :: "filesystem \<Rightarrow> DirectoryCollection \<Rightarrow> bool" for fs where
  r_default: "reachable fs DirectoryCollection_default"
| r_path: "reachable fs (DirectoryCollection_path fs path recursive)"
| r_call: "reachable fs c \<Longrightarrow> reachable fs (after fs q c)"
| r_clone: "reachable fs c \<Longrightarrow> reachable fs (DirectoryCollection_copy c)"

subsection \<open>The scan as the spec words it\<close>

text \<open>
  "Traverse the directory's children. For each child whose name is not the self/parent
  pseudo-entries, construct an Entry Metadata record and append it (append order =
  directory-listing order). If the recursion flag is set and the child is itself a
  directory, recurse into it before continuing the sibling listing (depth-first,
  pre-order)." The result is the entries in the order they are appended, the
  directories listed, and the error that ended the traversal, if any.
\<close>

fun scan :: "bool \<Rightarrow> FilePath \<Rightarrow> FilePath \<Rightarrow> listing \<Rightarrow> error option \<times> DirectoryEntry list \<times> FilePath list"
and scan_children :: "bool \<Rightarrow> FilePath \<Rightarrow> FilePath \<Rightarrow> (string \<times> node) list \<Rightarrow> error option \<times> DirectoryEntry list \<times> FilePath list"
where
  "scan r root subdir Raises = (Some IOException, [], [FilePath_plus root subdir])"
| "scan r root subdir (Listing its) =
     (case scan_children r root subdir its of
        (err, es, ds) \<Rightarrow> (err, es, FilePath_plus root subdir # ds))"
| "scan_children r root subdir [] = (None, [], [])"
| "scan_children r root subdir ((name, n) # rest) =
     (if name = ''.'' \<or> name = ''..'' then scan_children r root subdir rest
      else
        let ent = \<lparr>e_filename = FilePath_plus (FilePath_plus root subdir) name,
                   e_comment = '''', e_is_directory = is_dir n\<rparr>;
            below = (case n of
                       Dir l \<Rightarrow> if r then scan r root (FilePath_plus subdir name) l
                                else (None, [], [])
                     | File \<Rightarrow> (None, [], []))
        in (case below of
              (Some e, es, ds) \<Rightarrow> (Some e, ent # es, ds)
            | (None, es, ds) \<Rightarrow>
                (case scan_children r root subdir rest of
                   (err, es', ds') \<Rightarrow> (err, ent # es @ es', ds @ ds'))))"

definition to_result :: "error option \<Rightarrow> error + unit" where
  "to_result err = (case err of None \<Rightarrow> Inr () | Some e \<Rightarrow> Inl e)"

text \<open>Two filesystems for the examples: a directory \<open>d\<close> holding the file \<open>a\<close>, the
  directory \<open>s\<close> with the file \<open>b\<close> in it, and the file \<open>z\<close> (which cannot be opened);
  and the same with a directory \<open>s\<close> whose iteration throws.\<close>

definition fs_ok :: filesystem where
  "fs_ok = \<lparr>isDirectory = (\<lambda>p. p = ''d'' \<or> p = ''d/s''),
            dir_it = (\<lambda>p. if p = ''d''
                           then Listing [(''.'', Dir (Listing [])), (''..'', Dir (Listing [])),
                                         (''a'', File), (''s'', Dir (Listing [(''b'', File)])),
                                         (''z'', File)]
                           else Listing []),
            ifstream_good = (\<lambda>p. p = ''d/a'' \<or> p = ''d/s/b'')\<rparr>"

definition fs_bad :: filesystem where
  "fs_bad = \<lparr>isDirectory = (\<lambda>p. p = ''d'' \<or> p = ''d/s''),
             dir_it = (\<lambda>p. if p = ''d''
                            then Listing [(''a'', File), (''s'', Dir Raises), (''z'', File)]
                            else Listing []),
             ifstream_good = (\<lambda>p. p = ''d/a'')\<rparr>"

text \<open>The same entry with its name joined to a root.\<close>

definition under :: "FilePath \<Rightarrow> DirectoryEntry \<Rightarrow> DirectoryEntry" where
  "under root e = e\<lparr>e_filename := FilePath_plus root (e_filename e)\<rparr>"

text \<open>The entry \<^verbatim>\<open>loadEntries()\<close> builds for the root directory.\<close>

definition root_entry :: "filesystem \<Rightarrow> DirectoryCollection \<Rightarrow> DirectoryEntry" where
  "root_entry fs c = DirectoryEntry_ctor (isDirectory fs (m_filepath c)) (m_filepath c) ''''"

text \<open>The first example after its entries were loaded.\<close>

definition d_loaded :: DirectoryCollection where
  "d_loaded =
     \<lparr>m_filename = ''d'',
      m_entries =
        [\<lparr>e_filename = ''d'', e_comment = '''', e_is_directory = True\<rparr>,
         \<lparr>e_filename = ''d/a'', e_comment = '''', e_is_directory = False\<rparr>,
         \<lparr>e_filename = ''d/s'', e_comment = '''', e_is_directory = True\<rparr>,
         \<lparr>e_filename = ''d/s/b'', e_comment = '''', e_is_directory = False\<rparr>,
         \<lparr>e_filename = ''d/z'', e_comment = '''', e_is_directory = False\<rparr>],
      m_valid = True, m_entries_loaded = True, m_recursive = True, m_filepath = ''d''\<rparr>"

text \<open>The names, relative to the root, of the nodes the walk from the root of a
  collection appends, in the order it appends them.\<close>

definition relative_names :: "filesystem \<Rightarrow> DirectoryCollection \<Rightarrow> FilePath list" where
  "relative_names fs c =
     map e_filename (fst (snd (scan (m_recursive c) [] [] (dir_it fs (m_filepath c)))))"

text \<open>What holds of the cache of every object a program can hold.\<close>

definition cache_inv :: "filesystem \<Rightarrow> DirectoryCollection \<Rightarrow> bool" where
  "cache_inv fs c =
     ((m_valid c \<longrightarrow> isDirectory fs (m_filepath c)) \<and>
      (if m_entries_loaded c
       then m_valid c \<and>
            m_entries c =
              root_entry fs c #
              fst (snd (scan (m_recursive c) (m_filepath c) [] (dir_it fs (m_filepath c))))
       else m_entries c = []))"

section \<open>Properties\<close>

subsection \<open>The scan appends what the pre-order walk lists\<close>

lemma load_scan:
  "load l subdir c =
     (case scan (m_recursive c) (m_filepath c) subdir l of
        (err, es, ds) \<Rightarrow> (to_result err, c\<lparr>m_entries := m_entries c @ es\<rparr>, ds))"
  and load_loop_scan:
  "load_loop its subdir c =
     (case scan_children (m_recursive c) (m_filepath c) subdir its of
        (err, es, ds) \<Rightarrow> (to_result err, c\<lparr>m_entries := m_entries c @ es\<rparr>, ds))"
proof (induction l subdir c and its subdir c rule: load_load_loop.induct)
  case (1 subdir c)
  show ?case by (simp add: to_result_def)
next
  case (2 its subdir c)
  then show ?case by (simp split: prod.splits)
next
  case (3 subdir c)
  show ?case by (simp add: to_result_def)
next
  case (4 it n rest subdir c)
  then show ?case
    by (cases n)
       (auto simp: to_result_def push_back_def DirectoryEntry_ctor_def entry_isDirectory_def
          Let_def split: prod.splits option.splits sum.splits)
qed

lemma FilePath_plus_empty [simp]: "FilePath_plus [] b = b" "FilePath_plus a [] = a"
  by (simp_all add: FilePath_plus_def)

lemma FilePath_plus_assoc:
  "FilePath_plus (FilePath_plus a b) c = FilePath_plus a (FilePath_plus b c)"
  by (simp add: FilePath_plus_def)

text \<open>The walk without failure and without recursion lists the children that are
  not pseudo entries, and only the directory itself is iterated.\<close>

lemma scan_children_flat:
  "scan_children False root subdir its =
     (None,
      map (\<lambda>(name, n). \<lparr>e_filename = FilePath_plus (FilePath_plus root subdir) name,
                         e_comment = '''', e_is_directory = is_dir n\<rparr>)
        (filter (\<lambda>(name, n). name \<noteq> ''.'' \<and> name \<noteq> ''..'') its),
      [])"
proof (induction its)
  case Nil
  show ?case by simp
next
  case (Cons x its)
  obtain name n where x: "x = (name, n)" by (cases x)
  show ?case using Cons by (cases n) (simp_all add: x)
qed

text \<open>The root only prefixes the names: the walk from the root \<open>root\<close> is the walk
  from the empty path, every name joined to \<open>root\<close>.\<close>

lemma scan_under:
  "scan r root subdir l =
     (case scan r [] subdir l of
        (err, es, ds) \<Rightarrow> (err, map (under root) es, map (FilePath_plus root) ds))"
  and scan_children_under:
  "scan_children r root subdir its =
     (case scan_children r [] subdir its of
        (err, es, ds) \<Rightarrow> (err, map (under root) es, map (FilePath_plus root) ds))"
proof (induction r root subdir l and r root subdir its rule: scan_scan_children.induct)
  case (1 r root subdir)
  show ?case by simp
next
  case (2 r root subdir its)
  then show ?case by (simp split: prod.splits)
next
  case (3 r root subdir)
  show ?case by simp
next
  case (4 r root subdir name n rest)
  then show ?case
    by (cases n)
       (auto simp: under_def FilePath_plus_assoc Let_def split: prod.splits option.splits)
qed

subsection \<open>The lazy load\<close>

lemma loadEntries_invalid:
  "\<not> m_valid c \<Longrightarrow> loadEntries fs c = (Inl InvalidStateException, c, [])"
  by (simp add: loadEntries_def mustBeValid_def)

lemma loadEntries_loaded:
  "m_valid c \<Longrightarrow> m_entries_loaded c \<Longrightarrow> loadEntries fs c = (Inr (), c, [])"
  by (simp add: loadEntries_def mustBeValid_def)

lemma loadEntries_first:
  "m_valid c \<Longrightarrow> \<not> m_entries_loaded c \<Longrightarrow>
   loadEntries fs c =
     (case scan (m_recursive c) (m_filepath c) [] (dir_it fs (m_filepath c)) of
        (err, es, ds) \<Rightarrow>
          (to_result err,
           c\<lparr>m_entries_loaded := True, m_entries := m_entries c @ root_entry fs c # es\<rparr>,
           ds))"
  by (simp add: loadEntries_def mustBeValid_def load_scan push_back_def root_entry_def
        Let_def split: prod.splits)

lemma loadEntries_keeps:
  assumes "loadEntries fs c = (r, c', tr)"
  shows "m_valid c' = m_valid c" and "m_filepath c' = m_filepath c"
    and "m_recursive c' = m_recursive c" and "m_filename c' = m_filename c"
    and "m_valid c \<Longrightarrow> m_entries_loaded c'"
    and "\<not> m_valid c \<Longrightarrow> c' = c"
proof -
  consider "\<not> m_valid c" | "m_valid c" "m_entries_loaded c" | "m_valid c" "\<not> m_entries_loaded c"
    by blast
  then have "m_valid c' = m_valid c \<and> m_filepath c' = m_filepath c \<and>
      m_recursive c' = m_recursive c \<and> m_filename c' = m_filename c \<and>
      (m_valid c \<longrightarrow> m_entries_loaded c') \<and> (\<not> m_valid c \<longrightarrow> c' = c)"
  proof cases
    case 1
    with assms show ?thesis by (simp add: loadEntries_invalid)
  next
    case 2
    with assms show ?thesis by (simp add: loadEntries_loaded)
  next
    case 3
    with assms show ?thesis by (auto simp: loadEntries_first split: prod.splits)
  qed
  then show "m_valid c' = m_valid c" and "m_filepath c' = m_filepath c"
    and "m_recursive c' = m_recursive c" and "m_filename c' = m_filename c"
    and "m_valid c \<Longrightarrow> m_entries_loaded c'"
    and "\<not> m_valid c \<Longrightarrow> c' = c"
    by simp_all
qed

text \<open>Each query leaves the object as \<open>loadEntries\<close> leaves it and iterates what
  \<open>loadEntries\<close> iterates.\<close>

lemma after_query:
  "is_query q \<Longrightarrow> after fs q c = fst (snd (loadEntries fs c))"
  by (cases q)
     (auto simp: entries_def getEntry_def getInputStream_def size_entries_def
        split: prod.splits sum.splits option.splits)

lemma iterated_query:
  "is_query q \<Longrightarrow> iterated fs q c = snd (snd (loadEntries fs c))"
  by (cases q)
     (auto simp: entries_def getEntry_def getInputStream_def size_entries_def
        split: prod.splits sum.splits option.splits)

subsection \<open>The examples, evaluated\<close>

lemma loadEntries_fs_ok:
  "loadEntries fs_ok (DirectoryCollection_path fs_ok ''d'' True) = (Inr (), d_loaded, [''d'', ''d/s''])"
  by (simp add: loadEntries_def mustBeValid_def DirectoryCollection_path_def fs_ok_def
        push_back_def DirectoryEntry_ctor_def entry_isDirectory_def FilePath_plus_def
        d_loaded_def)

lemma d_loaded_flags: "m_valid d_loaded" "m_entries_loaded d_loaded"
  by (simp_all add: d_loaded_def)

lemma loadEntries_fs_bad:
  "loadEntries fs_bad (DirectoryCollection_path fs_bad ''d'' True) =
     (Inl IOException,
      \<lparr>m_filename = ''d'',
       m_entries =
         [\<lparr>e_filename = ''d'', e_comment = '''', e_is_directory = True\<rparr>,
          \<lparr>e_filename = ''d/a'', e_comment = '''', e_is_directory = False\<rparr>,
          \<lparr>e_filename = ''d/s'', e_comment = '''', e_is_directory = True\<rparr>],
       m_valid = True, m_entries_loaded = True, m_recursive = True, m_filepath = ''d''\<rparr>,
      [''d'', ''d/s''])"
  by (simp add: loadEntries_def mustBeValid_def DirectoryCollection_path_def fs_bad_def
        push_back_def DirectoryEntry_ctor_def entry_isDirectory_def FilePath_plus_def)

subsection \<open>Queries on an invalid collection\<close>

text \<open>
  C1. A collection whose valid flag is false fails each of \<^verbatim>\<open>entries()\<close>,
  \<^verbatim>\<open>getEntry()\<close>, \<^verbatim>\<open>size()\<close> and \<^verbatim>\<open>getInputStream()\<close> with the invalid-state
  exception; the object is left as it was and no directory is iterated. A
  default-constructed collection, one constructed over a path that is not a
  directory and a closed one are such collections.
\<close>

theorem invalid_collection_queries_fail:
  "(\<not> m_valid c \<longrightarrow>
      entries fs c = (Inl InvalidStateException, c, []) \<and>
      getEntry fs c name matchpath = (Inl InvalidStateException, c, []) \<and>
      size_entries fs c = (Inl InvalidStateException, c, []) \<and>
      getInputStream fs c name matchpath = (Inl InvalidStateException, c, [])) \<and>
   \<not> m_valid DirectoryCollection_default \<and>
   (\<not> isDirectory fs path \<longrightarrow> \<not> m_valid (DirectoryCollection_path fs path recursive)) \<and>
   \<not> m_valid (close c0)"
  by (simp add: entries_def getEntry_def size_entries_def getInputStream_def
        loadEntries_invalid DirectoryCollection_default_def DirectoryCollection_path_def
        close_def)

theorem invalid_collection_queries_fail_witness:
  "\<not> isDirectory fs_ok ''d/a'' \<and>
   \<not> m_valid (DirectoryCollection_path fs_ok ''d/a'' True) \<and>
   entries fs_ok (DirectoryCollection_path fs_ok ''d/a'' True) =
     (Inl InvalidStateException, DirectoryCollection_path fs_ok ''d/a'' True, []) \<and>
   getEntry fs_ok (DirectoryCollection_path fs_ok ''d/a'' True) ''d/a'' MATCH =
     (Inl InvalidStateException, DirectoryCollection_path fs_ok ''d/a'' True, []) \<and>
   size_entries fs_ok (DirectoryCollection_path fs_ok ''d/a'' True) =
     (Inl InvalidStateException, DirectoryCollection_path fs_ok ''d/a'' True, []) \<and>
   getInputStream fs_ok (DirectoryCollection_path fs_ok ''d/a'' True) ''d/a'' MATCH =
     (Inl InvalidStateException, DirectoryCollection_path fs_ok ''d/a'' True, [])"
proof -
  have nd: "\<not> isDirectory fs_ok ''d/a''"
    by (simp add: fs_ok_def)
  show ?thesis
    using nd invalid_collection_queries_fail
      [of "DirectoryCollection_path fs_ok ''d/a'' True" fs_ok "''d/a''" MATCH "''d/a''" True]
    by simp
qed

subsection \<open>The load happens once\<close>

lemma queries_after_first:
  assumes "m_valid c" and "m_entries_loaded c" and "\<forall>q\<in>set qs. is_query q"
  shows "after_all fs qs c = c \<and> iterated_all fs qs c = []"
  using assms
proof (induction qs)
  case Nil
  show ?case by simp
next
  case (Cons q qs)
  then have "after fs q c = c" and "iterated fs q c = []"
    by (simp_all add: after_query iterated_query loadEntries_loaded)
  with Cons show ?case by simp
qed

text \<open>
  C2. On a valid collection, the first query of a sequence of queries is the only one
  that iterates directories, and it iterates them only when the entries were not
  loaded yet (then it is one walk from the root); every query leaves the loaded flag
  set, so the flag goes from false to true and stays; and when \<^verbatim>\<open>entries()\<close> has
  returned a sequence, the next call returns the same sequence without iterating
  anything.
\<close>

theorem lazy_load_once:
  assumes "m_valid c" and "is_query q" and "\<forall>q'\<in>set qs. is_query q'"
  shows "iterated_all fs (q # qs) c = iterated fs q c \<and>
         after_all fs (q # qs) c = after fs q c \<and>
         iterated fs q c =
           (if m_entries_loaded c then []
            else snd (snd (scan (m_recursive c) (m_filepath c) [] (dir_it fs (m_filepath c))))) \<and>
         m_entries_loaded (after fs q c) \<and>
         (\<forall>xs c' tr. entries fs c = (Inr xs, c', tr) \<longrightarrow> entries fs c' = (Inr xs, c', []))"
proof -
  obtain r c1 tr1 where le: "loadEntries fs c = (r, c1, tr1)"
    by (cases "loadEntries fs c")
  have c1: "m_valid c1" "m_entries_loaded c1"
    using loadEntries_keeps [OF le] assms(1) by simp_all
  have a: "after fs q c = c1" and i: "iterated fs q c = tr1"
    using assms(2) le by (simp_all add: after_query iterated_query)
  have rest: "after_all fs qs c1 = c1 \<and> iterated_all fs qs c1 = []"
    using c1 assms(3) by (rule queries_after_first)
  have tr: "tr1 = (if m_entries_loaded c then []
      else snd (snd (scan (m_recursive c) (m_filepath c) [] (dir_it fs (m_filepath c)))))"
  proof (cases "m_entries_loaded c")
    case True
    with le assms(1) show ?thesis by (simp add: loadEntries_loaded)
  next
    case False
    with le assms(1) show ?thesis by (auto simp: loadEntries_first split: prod.splits)
  qed
  have twice: "entries fs c' = (Inr xs, c', [])" if "entries fs c = (Inr xs, c', tr)" for xs c' tr
  proof -
    from that le have eq: "c' = c1" "xs = FileCollection_entries c1"
      by (auto simp: entries_def split: sum.splits)
    show ?thesis
      using c1 by (simp add: eq entries_def loadEntries_loaded)
  qed
  show ?thesis
    using a i rest tr c1 twice by simp
qed

theorem lazy_load_once_witness:
  "iterated_all fs_ok [Entries, Size, GetEntry ''d/a'' MATCH, Entries]
     (DirectoryCollection_path fs_ok ''d'' True) = [''d'', ''d/s''] \<and>
   after_all fs_ok [Entries, Size, GetEntry ''d/a'' MATCH, Entries]
     (DirectoryCollection_path fs_ok ''d'' True) = d_loaded \<and>
   entries fs_ok (DirectoryCollection_path fs_ok ''d'' True) =
     (Inr (m_entries d_loaded), d_loaded, [''d'', ''d/s'']) \<and>
   entries fs_ok d_loaded = (Inr (m_entries d_loaded), d_loaded, [])"
proof -
  have v: "m_valid (DirectoryCollection_path fs_ok ''d'' True)"
    by (simp add: DirectoryCollection_path_def fs_ok_def)
  have q: "is_query Entries" "\<forall>q'\<in>set [Size, GetEntry ''d/a'' MATCH, Entries]. is_query q'"
    by simp_all
  have e: "entries fs_ok (DirectoryCollection_path fs_ok ''d'' True) =
      (Inr (m_entries d_loaded), d_loaded, [''d'', ''d/s''])"
    by (simp add: entries_def loadEntries_fs_ok FileCollection_entries_def)
  have "iterated_all fs_ok (Entries # [Size, GetEntry ''d/a'' MATCH, Entries])
          (DirectoryCollection_path fs_ok ''d'' True) =
          iterated fs_ok Entries (DirectoryCollection_path fs_ok ''d'' True) \<and>
        after_all fs_ok (Entries # [Size, GetEntry ''d/a'' MATCH, Entries])
          (DirectoryCollection_path fs_ok ''d'' True) =
          after fs_ok Entries (DirectoryCollection_path fs_ok ''d'' True) \<and>
        (\<forall>xs c' tr. entries fs_ok (DirectoryCollection_path fs_ok ''d'' True) = (Inr xs, c', tr) \<longrightarrow>
           entries fs_ok c' = (Inr xs, c', []))"
    using lazy_load_once [OF v q, of fs_ok] by blast
  then have 1: "iterated_all fs_ok [Entries, Size, GetEntry ''d/a'' MATCH, Entries]
          (DirectoryCollection_path fs_ok ''d'' True) =
          iterated fs_ok Entries (DirectoryCollection_path fs_ok ''d'' True)"
    and 2: "after_all fs_ok [Entries, Size, GetEntry ''d/a'' MATCH, Entries]
          (DirectoryCollection_path fs_ok ''d'' True) =
          after fs_ok Entries (DirectoryCollection_path fs_ok ''d'' True)"
    and 3: "entries fs_ok d_loaded = (Inr (m_entries d_loaded), d_loaded, [])"
    using e by blast+
  have i: "iterated fs_ok Entries (DirectoryCollection_path fs_ok ''d'' True) = [''d'', ''d/s'']"
    and a: "after fs_ok Entries (DirectoryCollection_path fs_ok ''d'' True) = d_loaded"
    by (simp_all add: e)
  show ?thesis
    using 1 2 3 e i a by (simp only: simp_thms)
qed

subsection \<open>The cache of a loaded collection\<close>

lemma DirectoryCollection_copy_same [simp]: "DirectoryCollection_copy c = c"
  by (simp add: DirectoryCollection_copy_def)

lemma reachable_cache_inv: "reachable fs c \<Longrightarrow> cache_inv fs c"
proof (induction rule: reachable.induct)
  case r_default
  show ?case by (simp add: cache_inv_def DirectoryCollection_default_def)
next
  case (r_path path recursive)
  show ?case by (simp add: cache_inv_def DirectoryCollection_path_def)
next
  case (r_call c q)
  show ?case
  proof (cases "is_query q")
    case False
    then have "q = Close" by (cases q) simp_all
    then show ?thesis by (simp add: cache_inv_def close_def)
  next
    case True
    then have a: "after fs q c = fst (snd (loadEntries fs c))"
      by (rule after_query)
    consider "\<not> m_valid c" | "m_valid c" "m_entries_loaded c"
      | "m_valid c" "\<not> m_entries_loaded c"
      by blast
    then show ?thesis
    proof cases
      case 1
      with r_call.IH show ?thesis by (simp add: a loadEntries_invalid)
    next
      case 2
      with r_call.IH show ?thesis by (simp add: a loadEntries_loaded)
    next
      case 3
      with r_call.IH show ?thesis
        by (simp add: a loadEntries_first cache_inv_def root_entry_def split: prod.splits)
    qed
  qed
next
  case (r_clone c)
  then show ?case by simp
qed

lemma scan_names_under:
  "map e_filename (fst (snd (scan r root [] l))) =
     map (FilePath_plus root) (map e_filename (fst (snd (scan r [] [] l))))"
proof -
  obtain err es ds where s: "scan r [] [] l = (err, es, ds)"
    by (cases "scan r [] [] l")
  then have "scan r root [] l = (err, map (under root) es, map (FilePath_plus root) ds)"
    using scan_under [of r root "[]" l] by simp
  with s show ?thesis by (simp add: under_def comp_def)
qed

lemma reachable_d_loaded: "reachable fs_ok d_loaded"
proof -
  have "reachable fs_ok (after fs_ok Entries (DirectoryCollection_path fs_ok ''d'' True))"
    by (rule r_call [OF r_path])
  then show ?thesis by (simp add: entries_def loadEntries_fs_ok)
qed

lemma relative_names_d_loaded: "relative_names fs_ok d_loaded = [''a'', ''s'', ''s/b'', ''z'']"
  by (simp add: relative_names_def d_loaded_def fs_ok_def FilePath_plus_def)

text \<open>
  C3, as the code has it. In every loaded collection a program can hold, the first
  cached entry is the entry of the root directory, built from the root path itself
  (its name is the root path, the empty string is the second constructor argument),
  and the names of the other cached entries are the root path joined with the paths,
  relative to the root, of the nodes the walk appends.
\<close>

theorem loaded_cache_root_first:
  assumes "reachable fs c" and "m_entries_loaded c"
  shows "m_entries c \<noteq> [] \<and>
         m_entries c ! 0 =
           \<lparr>e_filename = m_filepath c, e_comment = '''', e_is_directory = True\<rparr> \<and>
         getName (m_entries c ! 0) = m_filepath c \<and>
         map getName (tl (m_entries c)) = map (FilePath_plus (m_filepath c)) (relative_names fs c)"
proof -
  have inv: "cache_inv fs c"
    using assms(1) by (rule reachable_cache_inv)
  with assms(2) have v: "m_valid c" "isDirectory fs (m_filepath c)"
    and m: "m_entries c = root_entry fs c #
        fst (snd (scan (m_recursive c) (m_filepath c) [] (dir_it fs (m_filepath c))))"
    by (simp_all add: cache_inv_def)
  have g: "map getName xs = map e_filename xs" for xs
    by (simp add: getName_def)
  have t: "map getName (tl (m_entries c)) =
      map (FilePath_plus (m_filepath c)) (relative_names fs c)"
    unfolding relative_names_def g
    by (subst m) (simp add: scan_names_under [of _ "m_filepath c"])
  have h: "m_entries c ! 0 = root_entry fs c" and n: "m_entries c \<noteq> []"
    by (subst m, simp)+
  show ?thesis
    using v t n by (simp add: h root_entry_def DirectoryEntry_ctor_def getName_def)
qed

theorem loaded_cache_root_first_witness:
  "reachable fs_ok d_loaded \<and> m_entries_loaded d_loaded \<and>
   m_entries d_loaded ! 0 = \<lparr>e_filename = ''d'', e_comment = '''', e_is_directory = True\<rparr> \<and>
   map getName (tl (m_entries d_loaded)) =
     map (FilePath_plus ''d'') [''a'', ''s'', ''s/b'', ''z'']"
proof -
  have "m_filepath d_loaded = ''d''"
    by (simp add: d_loaded_def)
  then show ?thesis
    using loaded_cache_root_first [OF reachable_d_loaded d_loaded_flags(2)]
      reachable_d_loaded d_loaded_flags(2) relative_names_d_loaded
    by simp
qed

text \<open>The claim as the spec words it (an empty name for the root entry, names
  relative to the root for the others) fails on the first example: the root entry is
  named \<open>d\<close> and the entry of the file \<open>a\<close> is named \<open>d/a\<close>.\<close>

theorem loaded_cache_counterexample:
  "reachable fs_ok d_loaded \<and> m_entries_loaded d_loaded \<and>
   getName (m_entries d_loaded ! 0) = ''d'' \<and>
   getName (m_entries d_loaded ! 0) \<noteq> '''' \<and>
   relative_names fs_ok d_loaded = [''a'', ''s'', ''s/b'', ''z''] \<and>
   map getName (tl (m_entries d_loaded)) = [''d/a'', ''d/s'', ''d/s/b'', ''d/z''] \<and>
   map getName (tl (m_entries d_loaded)) \<noteq> relative_names fs_ok d_loaded"
  using reachable_d_loaded relative_names_d_loaded
  by (simp add: d_loaded_def getName_def)

subsection \<open>The order of the scan\<close>

text \<open>
  C4. \<^verbatim>\<open>load\<close> appends to the cache exactly what the pre-order walk of the spec lists
  (children in listing order, the pseudo entries skipped, one entry per remaining
  child, the entries below a child directory right after the child and before its
  next sibling when the collection is recursive), iterates the directories the walk
  iterates and fails where the walk fails. When the collection is not recursive, it
  appends one entry per child that is not a pseudo entry, directories included, and
  iterates no directory but the one it was called for; the first load of such a
  collection leaves the root entry and one entry per child of the root in the cache
  and iterates the root only.
\<close>

theorem load_is_preorder_walk:
  "load l subdir c =
     (case scan (m_recursive c) (m_filepath c) subdir l of
        (err, es, ds) \<Rightarrow> (to_result err, c\<lparr>m_entries := m_entries c @ es\<rparr>, ds)) \<and>
   (\<not> m_recursive c \<longrightarrow>
      load (Listing its) subdir c =
        (Inr (),
         c\<lparr>m_entries := m_entries c @
              map (\<lambda>(name, n).
                     \<lparr>e_filename = FilePath_plus (FilePath_plus (m_filepath c) subdir) name,
                      e_comment = '''', e_is_directory = is_dir n\<rparr>)
                (filter (\<lambda>(name, n). name \<noteq> ''.'' \<and> name \<noteq> ''..'') its)\<rparr>,
         [FilePath_plus (m_filepath c) subdir])) \<and>
   (m_valid c \<and> \<not> m_entries_loaded c \<and> \<not> m_recursive c \<and>
    dir_it fs (m_filepath c) = Listing its \<longrightarrow>
      loadEntries fs c =
        (Inr (),
         c\<lparr>m_entries_loaded := True,
           m_entries := m_entries c @
              root_entry fs c #
              map (\<lambda>(name, n).
                     \<lparr>e_filename = FilePath_plus (m_filepath c) name,
                      e_comment = '''', e_is_directory = is_dir n\<rparr>)
                (filter (\<lambda>(name, n). name \<noteq> ''.'' \<and> name \<noteq> ''..'') its)\<rparr>,
         [m_filepath c]))"
  by (simp add: load_scan scan_children_flat to_result_def loadEntries_first)

theorem load_is_preorder_walk_witness:
  "load (dir_it fs_ok ''d'') [] (DirectoryCollection_path fs_ok ''d'' True) =
     (Inr (),
      (DirectoryCollection_path fs_ok ''d'' True)
        \<lparr>m_entries :=
           [\<lparr>e_filename = ''d/a'', e_comment = '''', e_is_directory = False\<rparr>,
            \<lparr>e_filename = ''d/s'', e_comment = '''', e_is_directory = True\<rparr>,
            \<lparr>e_filename = ''d/s/b'', e_comment = '''', e_is_directory = False\<rparr>,
            \<lparr>e_filename = ''d/z'', e_comment = '''', e_is_directory = False\<rparr>]\<rparr>,
      [''d'', ''d/s'']) \<and>
   \<not> m_recursive (DirectoryCollection_path fs_ok ''d'' False) \<and>
   load (Listing [(''.'', Dir (Listing [])), (''a'', File), (''s'', Dir (Listing [(''b'', File)]))])
       [] (DirectoryCollection_path fs_ok ''d'' False) =
     (Inr (),
      (DirectoryCollection_path fs_ok ''d'' False)
        \<lparr>m_entries :=
           [\<lparr>e_filename = ''d/a'', e_comment = '''', e_is_directory = False\<rparr>,
            \<lparr>e_filename = ''d/s'', e_comment = '''', e_is_directory = True\<rparr>]\<rparr>,
      [''d'']) \<and>
   m_valid (DirectoryCollection_path fs_ok ''d'' False) \<and>
   \<not> m_entries_loaded (DirectoryCollection_path fs_ok ''d'' False) \<and>
   loadEntries fs_ok (DirectoryCollection_path fs_ok ''d'' False) =
     (Inr (),
      \<lparr>m_filename = ''d'',
       m_entries =
         [\<lparr>e_filename = ''d'', e_comment = '''', e_is_directory = True\<rparr>,
          \<lparr>e_filename = ''d/a'', e_comment = '''', e_is_directory = False\<rparr>,
          \<lparr>e_filename = ''d/s'', e_comment = '''', e_is_directory = True\<rparr>,
          \<lparr>e_filename = ''d/z'', e_comment = '''', e_is_directory = False\<rparr>],
       m_valid = True, m_entries_loaded = True, m_recursive = False, m_filepath = ''d''\<rparr>,
      [''d''])"
proof -
  have s: "scan True ''d'' [] (dir_it fs_ok ''d'') =
      (None,
       [\<lparr>e_filename = ''d/a'', e_comment = '''', e_is_directory = False\<rparr>,
        \<lparr>e_filename = ''d/s'', e_comment = '''', e_is_directory = True\<rparr>,
        \<lparr>e_filename = ''d/s/b'', e_comment = '''', e_is_directory = False\<rparr>,
        \<lparr>e_filename = ''d/z'', e_comment = '''', e_is_directory = False\<rparr>],
       [''d'', ''d/s''])"
    by (simp add: fs_ok_def FilePath_plus_def)
  have f: "m_recursive (DirectoryCollection_path fs_ok ''d'' True)"
      "\<not> m_recursive (DirectoryCollection_path fs_ok ''d'' False)"
      "m_filepath (DirectoryCollection_path fs_ok ''d'' True) = ''d''"
      "m_filepath (DirectoryCollection_path fs_ok ''d'' False) = ''d''"
      "m_entries (DirectoryCollection_path fs_ok ''d'' True) = []"
      "m_entries (DirectoryCollection_path fs_ok ''d'' False) = []"
      "m_valid (DirectoryCollection_path fs_ok ''d'' False)"
      "\<not> m_entries_loaded (DirectoryCollection_path fs_ok ''d'' False)"
    by (simp_all add: DirectoryCollection_path_def fs_ok_def)
  have d: "dir_it fs_ok ''d'' =
      Listing [(''.'', Dir (Listing [])), (''..'', Dir (Listing [])), (''a'', File),
               (''s'', Dir (Listing [(''b'', File)])), (''z'', File)]"
    by (simp add: fs_ok_def)
  have flat: "loadEntries fs_ok (DirectoryCollection_path fs_ok ''d'' False) =
      (Inr (),
       (DirectoryCollection_path fs_ok ''d'' False)
         \<lparr>m_entries_loaded := True,
           m_entries := [] @
              root_entry fs_ok (DirectoryCollection_path fs_ok ''d'' False) #
              map (\<lambda>(name, n).
                     \<lparr>e_filename = FilePath_plus ''d'' name,
                      e_comment = '''', e_is_directory = is_dir n\<rparr>)
                (filter (\<lambda>(name, n). name \<noteq> ''.'' \<and> name \<noteq> ''..'')
                   [(''.'', Dir (Listing [])), (''..'', Dir (Listing [])), (''a'', File),
                    (''s'', Dir (Listing [(''b'', File)])), (''z'', File)])\<rparr>,
       [''d''])"
    using load_is_preorder_walk
      [of Raises "[]" "DirectoryCollection_path fs_ok ''d'' False" _ fs_ok] f d
    by (simp only: simp_thms)
  have ld: "loadEntries fs_ok (DirectoryCollection_path fs_ok ''d'' False) =
     (Inr (),
      \<lparr>m_filename = ''d'',
       m_entries =
         [\<lparr>e_filename = ''d'', e_comment = '''', e_is_directory = True\<rparr>,
          \<lparr>e_filename = ''d/a'', e_comment = '''', e_is_directory = False\<rparr>,
          \<lparr>e_filename = ''d/s'', e_comment = '''', e_is_directory = True\<rparr>,
          \<lparr>e_filename = ''d/z'', e_comment = '''', e_is_directory = False\<rparr>],
       m_valid = True, m_entries_loaded = True, m_recursive = False, m_filepath = ''d''\<rparr>,
      [''d''])"
    by (subst flat)
       (simp add: root_entry_def DirectoryEntry_ctor_def DirectoryCollection_path_def
          FilePath_plus_def fs_ok_def)
  have walk: "load (dir_it fs_ok ''d'') [] (DirectoryCollection_path fs_ok ''d'' True) =
     (Inr (),
      (DirectoryCollection_path fs_ok ''d'' True)
        \<lparr>m_entries :=
           [\<lparr>e_filename = ''d/a'', e_comment = '''', e_is_directory = False\<rparr>,
            \<lparr>e_filename = ''d/s'', e_comment = '''', e_is_directory = True\<rparr>,
            \<lparr>e_filename = ''d/s/b'', e_comment = '''', e_is_directory = False\<rparr>,
            \<lparr>e_filename = ''d/z'', e_comment = '''', e_is_directory = False\<rparr>]\<rparr>,
      [''d'', ''d/s''])"
    using load_is_preorder_walk
        [of "dir_it fs_ok ''d''" "[]" "DirectoryCollection_path fs_ok ''d'' True"]
    by (simp add: f s to_result_def)
  have one: "load (Listing [(''.'', Dir (Listing [])), (''a'', File), (''s'', Dir (Listing [(''b'', File)]))])
       [] (DirectoryCollection_path fs_ok ''d'' False) =
     (Inr (),
      (DirectoryCollection_path fs_ok ''d'' False)
        \<lparr>m_entries :=
           [\<lparr>e_filename = ''d/a'', e_comment = '''', e_is_directory = False\<rparr>,
            \<lparr>e_filename = ''d/s'', e_comment = '''', e_is_directory = True\<rparr>]\<rparr>,
      [''d''])"
    using f(2) load_is_preorder_walk
        [of "Raises" "[]" "DirectoryCollection_path fs_ok ''d'' False"
          "[(''.'', Dir (Listing [])), (''a'', File), (''s'', Dir (Listing [(''b'', File)]))]"]
    by (simp add: f FilePath_plus_def)
  show ?thesis
    using walk one ld f(2,7,8) by (simp only: simp_thms)
qed

subsection \<open>Lookup\<close>

lemma getEntry_fs_ok:
  "getEntry fs_ok (DirectoryCollection_path fs_ok ''d'' True) name matchpath =
     (Inr (FileCollection_getEntry d_loaded name matchpath), d_loaded, [''d'', ''d/s''])"
  by (simp add: getEntry_def loadEntries_fs_ok)

lemma basename_examples:
  "basename '''' = ''''" "basename ''a'' = ''a''" "basename ''s'' = ''s''"
  "basename ''s/b'' = ''b''" "basename ''z'' = ''z''" "basename ''x/y/b'' = ''b''"
  by (simp_all add: basename_def)





lemma d_loaded_relative:
  "map (relative_name ''d'') (m_entries d_loaded) = ['''', ''a'', ''s'', ''s/b'', ''z'']"
  by (simp add: d_loaded_def relative_name_def getName_def)

lemma getEntry_d_loaded:
  "FileCollection_getEntry d_loaded ''a'' MATCH =
     Some \<lparr>e_filename = ''d/a'', e_comment = '''', e_is_directory = False\<rparr>"
  "FileCollection_getEntry d_loaded ''s'' MATCH =
     Some \<lparr>e_filename = ''d/s'', e_comment = '''', e_is_directory = True\<rparr>"
  "FileCollection_getEntry d_loaded ''z'' MATCH =
     Some \<lparr>e_filename = ''d/z'', e_comment = '''', e_is_directory = False\<rparr>"
  "FileCollection_getEntry d_loaded ''s/b'' MATCH =
     Some \<lparr>e_filename = ''d/s/b'', e_comment = '''', e_is_directory = False\<rparr>"
  "FileCollection_getEntry d_loaded ''b'' MATCH = None"
  "FileCollection_getEntry d_loaded ''x/y/b'' IGNORE =
     Some \<lparr>e_filename = ''d/s/b'', e_comment = '''', e_is_directory = False\<rparr>"
  by (simp_all add: FileCollection_getEntry_def d_loaded_def relative_name_def getName_def
        basename_examples)



subsection \<open>Streams\<close>

text \<open>
  C6. On a valid collection whose lookup returns normally, \<^verbatim>\<open>getInputStream\<close>
  returns normally too; its result is empty exactly when the lookup found no entry or
  found a directory, and otherwise it is the stream opened in binary mode on the name
  of the entry found.
\<close>

theorem getInputStream_result:
  assumes "m_valid c" and "getEntry fs c name matchpath = (Inr r, c', tr)"
  shows "\<exists>s. getInputStream fs c name matchpath = (Inr s, c', tr) \<and>
           (s = None \<longleftrightarrow> (r = None \<or> (\<exists>en. r = Some en \<and> entry_isDirectory en))) \<and>
           (\<forall>en. r = Some en \<and> \<not> entry_isDirectory en \<longrightarrow>
                s = Some \<lparr>s_path = getName en, s_binary = True,
                          s_good = ifstream_good fs (getName en)\<rparr>)"
  using assms(2)
  by (cases r) (auto simp: getInputStream_def std_ifstream_def)

theorem getInputStream_result_witness:
  "m_valid (DirectoryCollection_path fs_ok ''d'' True) \<and>
   getEntry fs_ok (DirectoryCollection_path fs_ok ''d'' True) ''s'' MATCH =
     (Inr (Some \<lparr>e_filename = ''d/s'', e_comment = '''', e_is_directory = True\<rparr>),
      d_loaded, [''d'', ''d/s'']) \<and>
   getInputStream fs_ok (DirectoryCollection_path fs_ok ''d'' True) ''s'' MATCH =
     (Inr None, d_loaded, [''d'', ''d/s'']) \<and>
   getEntry fs_ok (DirectoryCollection_path fs_ok ''d'' True) ''a'' MATCH =
     (Inr (Some \<lparr>e_filename = ''d/a'', e_comment = '''', e_is_directory = False\<rparr>),
      d_loaded, [''d'', ''d/s'']) \<and>
   getInputStream fs_ok (DirectoryCollection_path fs_ok ''d'' True) ''a'' MATCH =
     (Inr (Some \<lparr>s_path = ''d/a'', s_binary = True, s_good = True\<rparr>),
      d_loaded, [''d'', ''d/s''])"
proof -
  have v: "m_valid (DirectoryCollection_path fs_ok ''d'' True)"
    by (simp add: DirectoryCollection_path_def fs_ok_def)
  have e1: "getEntry fs_ok (DirectoryCollection_path fs_ok ''d'' True) ''s'' MATCH =
     (Inr (Some \<lparr>e_filename = ''d/s'', e_comment = '''', e_is_directory = True\<rparr>),
      d_loaded, [''d'', ''d/s''])"
    and e2: "getEntry fs_ok (DirectoryCollection_path fs_ok ''d'' True) ''a'' MATCH =
     (Inr (Some \<lparr>e_filename = ''d/a'', e_comment = '''', e_is_directory = False\<rparr>),
      d_loaded, [''d'', ''d/s''])"
    by (simp_all add: getEntry_fs_ok getEntry_d_loaded)
  have g: "ifstream_good fs_ok ''d/a''"
    by (simp add: fs_ok_def)
  show ?thesis
    using v e1 e2 g getInputStream_result [OF v e1] getInputStream_result [OF v e2]
    by (auto simp: entry_isDirectory_def getName_def)
qed

text \<open>
  C9. When the lookup finds an entry that is not a directory, \<^verbatim>\<open>getInputStream\<close>
  returns a stream, whether or not the file could be opened: the stream of a file
  that cannot be opened is returned in its failed state.
\<close>

theorem getInputStream_unchecked:
  assumes "getEntry fs c name matchpath = (Inr (Some en), c', tr)"
    and "\<not> entry_isDirectory en"
  shows "\<exists>s. getInputStream fs c name matchpath = (Inr (Some s), c', tr) \<and>
           s_path s = getName en \<and> s_good s = ifstream_good fs (getName en) \<and>
           (\<not> ifstream_good fs (getName en) \<longrightarrow> \<not> s_good s)"
  using assms by (simp add: getInputStream_def std_ifstream_def)

theorem getInputStream_unchecked_witness:
  "getEntry fs_ok (DirectoryCollection_path fs_ok ''d'' True) ''z'' MATCH =
     (Inr (Some \<lparr>e_filename = ''d/z'', e_comment = '''', e_is_directory = False\<rparr>),
      d_loaded, [''d'', ''d/s'']) \<and>
   \<not> entry_isDirectory \<lparr>e_filename = ''d/z'', e_comment = '''', e_is_directory = False\<rparr> \<and>
   \<not> ifstream_good fs_ok ''d/z'' \<and>
   getInputStream fs_ok (DirectoryCollection_path fs_ok ''d'' True) ''z'' MATCH =
     (Inr (Some \<lparr>s_path = ''d/z'', s_binary = True, s_good = False\<rparr>),
      d_loaded, [''d'', ''d/s''])"
proof -
  have e: "getEntry fs_ok (DirectoryCollection_path fs_ok ''d'' True) ''z'' MATCH =
     (Inr (Some \<lparr>e_filename = ''d/z'', e_comment = '''', e_is_directory = False\<rparr>),
      d_loaded, [''d'', ''d/s''])"
    by (simp add: getEntry_fs_ok getEntry_d_loaded)
  have d: "\<not> entry_isDirectory \<lparr>e_filename = ''d/z'', e_comment = '''', e_is_directory = False\<rparr>"
    by (simp add: entry_isDirectory_def)
  have g: "\<not> ifstream_good fs_ok ''d/z''"
    by (simp add: fs_ok_def)
  from getInputStream_unchecked [OF e d]
  obtain s where s: "getInputStream fs_ok (DirectoryCollection_path fs_ok ''d'' True) ''z'' MATCH =
      (Inr (Some s), d_loaded, [''d'', ''d/s''])"
    and p: "s_path s = ''d/z''" and b: "\<not> s_good s"
    using g by (auto simp: getName_def)
  have "s_binary s"
    using s e by (auto simp: getInputStream_def std_ifstream_def entry_isDirectory_def)
  then have "s = \<lparr>s_path = ''d/z'', s_binary = True, s_good = False\<rparr>"
    using p b by (cases s) simp
  with s e d g show ?thesis by simp
qed

subsection \<open>Closing\<close>

lemma invalid_stays: "\<not> m_valid c \<Longrightarrow> \<not> m_valid (after_all fs qs c)"
proof (induction qs arbitrary: c)
  case Nil
  then show ?case by simp
next
  case (Cons q qs)
  have "\<not> m_valid (after fs q c)"
  proof (cases "is_query q")
    case True
    with Cons.prems show ?thesis by (simp add: after_query loadEntries_invalid)
  next
    case False
    then have "q = Close" by (cases q) simp_all
    then show ?thesis by (simp add: close_def)
  qed
  then show ?case by (simp add: Cons.IH)
qed

text \<open>
  C7. \<^verbatim>\<open>close()\<close> clears the valid flag and the loaded flag, empties the cache,
  resets the root path to the empty path and the name to the placeholder, and leaves
  the recursion flag alone, whatever the state of the object. On the closed object
  each query fails with the invalid-state exception, and no sequence of calls on the
  object makes it valid again.
\<close>

theorem close_invalidates:
  "\<not> m_valid (close c) \<and> \<not> m_entries_loaded (close c) \<and> m_entries (close c) = [] \<and>
   m_filepath (close c) = [] \<and> m_filename (close c) = ''-'' \<and>
   m_recursive (close c) = m_recursive c \<and>
   entries fs (close c) = (Inl InvalidStateException, close c, []) \<and>
   getEntry fs (close c) name matchpath = (Inl InvalidStateException, close c, []) \<and>
   size_entries fs (close c) = (Inl InvalidStateException, close c, []) \<and>
   getInputStream fs (close c) name matchpath = (Inl InvalidStateException, close c, []) \<and>
   \<not> m_valid (after_all fs qs (close c))"
proof -
  have nv: "\<not> m_valid (close c)"
    by (simp add: close_def)
  have fields: "\<not> m_entries_loaded (close c) \<and> m_entries (close c) = [] \<and>
      m_filepath (close c) = [] \<and> m_filename (close c) = ''-'' \<and>
      m_recursive (close c) = m_recursive c"
    by (simp add: close_def)
  have queries: "entries fs (close c) = (Inl InvalidStateException, close c, []) \<and>
      getEntry fs (close c) name matchpath = (Inl InvalidStateException, close c, []) \<and>
      size_entries fs (close c) = (Inl InvalidStateException, close c, []) \<and>
      getInputStream fs (close c) name matchpath = (Inl InvalidStateException, close c, [])"
    using nv
    by (simp add: entries_def getEntry_def size_entries_def getInputStream_def
          loadEntries_invalid)
  show ?thesis
    using nv fields queries invalid_stays [OF nv] by blast
qed

theorem close_invalidates_witness:
  "close d_loaded =
     \<lparr>m_filename = ''-'', m_entries = [], m_valid = False, m_entries_loaded = False,
      m_recursive = True, m_filepath = ''''\<rparr> \<and>
   entries fs_ok (close d_loaded) = (Inl InvalidStateException, close d_loaded, []) \<and>
   \<not> m_valid (after_all fs_ok [Entries, Close, Size] (close d_loaded))"
proof -
  have "close d_loaded =
     \<lparr>m_filename = ''-'', m_entries = [], m_valid = False, m_entries_loaded = False,
      m_recursive = True, m_filepath = ''''\<rparr>"
    by (simp add: close_def d_loaded_def)
  then show ?thesis
    using close_invalidates [of d_loaded fs_ok "''d''" MATCH "[Entries, Close, Size]"]
    by blast
qed

subsection \<open>Cloning\<close>

text \<open>
  C8. \<^verbatim>\<open>clone()\<close> of a valid, loaded collection allocates a new object that holds the
  same root path, flags and entries. Closing the original afterwards leaves the clone
  as it was: valid, loaded, with the same entries, answering \<^verbatim>\<open>entries()\<close> from its
  own cache without iterating a directory. Closing the clone leaves the original as
  it was.
\<close>

theorem clone_independent:
  assumes "this < length h" and "m_valid (h ! this)" and "m_entries_loaded (h ! this)"
  shows "\<exists>p h'. clone h this = Some (p, h') \<and> p \<noteq> this \<and>
           h' ! this = h ! this \<and> h' ! p = h ! this \<and>
           (\<exists>h1. close_at h' this = Some h1 \<and> \<not> m_valid (h1 ! this) \<and>
                 h1 ! p = h ! this \<and> m_valid (h1 ! p) \<and> m_entries_loaded (h1 ! p) \<and>
                 m_entries (h1 ! p) = m_entries (h ! this) \<and>
                 entries fs (h1 ! p) = (Inr (m_entries (h ! this)), h1 ! p, [])) \<and>
           (\<exists>h2. close_at h' p = Some h2 \<and> \<not> m_valid (h2 ! p) \<and>
                 h2 ! this = h ! this \<and> m_valid (h2 ! this) \<and> m_entries_loaded (h2 ! this) \<and>
                 entries fs (h2 ! this) = (Inr (m_entries (h ! this)), h2 ! this, []))"
proof -
  let ?p = "length h" and ?h' = "h @ [h ! this]"
  have c: "clone h this = Some (?p, ?h')"
    using assms(1) by (simp add: clone_def)
  have ne: "?p \<noteq> this"
    using assms(1) by simp
  have same: "?h' ! this = h ! this" "?h' ! ?p = h ! this"
    using assms(1) by (simp_all add: nth_append)
  have e: "entries fs (h ! this) = (Inr (m_entries (h ! this)), h ! this, [])"
    using assms(2,3) by (simp add: entries_def loadEntries_loaded FileCollection_entries_def)
  let ?h1 = "?h'[this := close (?h' ! this)]"
  have j1: "close_at ?h' this = Some ?h1"
    using assms(1) by (simp add: close_at_def)
  have k1: "?h1 ! ?p = h ! this" "?h1 ! this = close (h ! this)"
    using assms(1) by (simp_all add: nth_append nth_list_update)
  let ?h2 = "?h'[?p := close (?h' ! ?p)]"
  have j2: "close_at ?h' ?p = Some ?h2"
    by (simp add: close_at_def)
  have k2: "?h2 ! this = h ! this" "?h2 ! ?p = close (h ! this)"
    using assms(1) by (simp_all add: nth_append nth_list_update)
  have nv: "\<not> m_valid (close (h ! this))"
    by (simp add: close_def)
  show ?thesis
    apply (rule exI [of _ ?p])
    apply (rule exI [of _ ?h'])
    apply (intro conjI)
         apply (rule c)
        apply (rule ne)
       apply (rule same)
      apply (rule same)
     apply (rule exI [of _ ?h1])
     apply (simp only: j1 k1 nv e assms simp_thms)
    apply (rule exI [of _ ?h2])
    apply (simp only: j2 k2 nv e assms simp_thms)
    done
qed

theorem clone_independent_witness:
  "(0::nat) < length [d_loaded] \<and> m_valid ([d_loaded] ! 0) \<and> m_entries_loaded ([d_loaded] ! 0) \<and>
   clone [d_loaded] 0 = Some (1, [d_loaded, d_loaded]) \<and>
   close_at [d_loaded, d_loaded] 0 = Some [close d_loaded, d_loaded] \<and>
   entries fs_ok ([close d_loaded, d_loaded] ! 1) = (Inr (m_entries d_loaded), d_loaded, []) \<and>
   close_at [d_loaded, d_loaded] 1 = Some [d_loaded, close d_loaded] \<and>
   entries fs_ok ([d_loaded, close d_loaded] ! 0) = (Inr (m_entries d_loaded), d_loaded, [])"
proof -
  have a: "(0::nat) < length [d_loaded]" "m_valid ([d_loaded] ! 0)"
      "m_entries_loaded ([d_loaded] ! 0)"
    by (simp_all add: d_loaded_flags)
  have c: "clone [d_loaded] 0 = Some (1, [d_loaded, d_loaded])"
      "close_at [d_loaded, d_loaded] 0 = Some [close d_loaded, d_loaded]"
      "close_at [d_loaded, d_loaded] 1 = Some [d_loaded, close d_loaded]"
    by (simp_all add: clone_def close_at_def)
  show ?thesis
    using a c clone_independent [OF a, of fs_ok] by auto
qed

subsection \<open>A scan that fails\<close>

text \<open>
  C10. When the first load of a valid collection fails, the object is left with the
  loaded flag set, still valid, and with a cache that holds what was there before,
  the root entry and the entries appended before the failure. Every later query is
  answered from that cache, returns normally and iterates no directory, on whatever
  filesystem.
\<close>

theorem failed_load_stays_loaded:
  assumes "m_valid c" and "\<not> m_entries_loaded c" and "loadEntries fs c = (Inl e, c', tr)"
  shows "m_entries_loaded c' \<and> m_valid c' \<and>
         (\<exists>es. m_entries c' = m_entries c @ root_entry fs c # es \<and>
               scan (m_recursive c) (m_filepath c) [] (dir_it fs (m_filepath c)) = (Some e, es, tr)) \<and>
         loadEntries fs' c' = (Inr (), c', []) \<and>
         entries fs' c' = (Inr (m_entries c'), c', []) \<and>
         size_entries fs' c' = (Inr (length (m_entries c')), c', []) \<and>
         getEntry fs' c' name matchpath = (Inr (FileCollection_getEntry c' name matchpath), c', [])"
proof -
  obtain err es ds where
    s: "scan (m_recursive c) (m_filepath c) [] (dir_it fs (m_filepath c)) = (err, es, ds)"
    by (cases "scan (m_recursive c) (m_filepath c) [] (dir_it fs (m_filepath c))")
  with assms have r: "to_result err = Inl e" "tr = ds"
    and c': "c' = c\<lparr>m_entries_loaded := True, m_entries := m_entries c @ root_entry fs c # es\<rparr>"
    by (simp_all add: loadEntries_first)
  from r(1) have err: "err = Some e"
    by (cases err) (simp_all add: to_result_def)
  have f: "m_entries_loaded c'" "m_valid c'"
    using assms(1) by (simp_all add: c')
  have l: "loadEntries fs' c' = (Inr (), c', [])"
    using f by (simp add: loadEntries_loaded)
  have "m_entries c' = m_entries c @ root_entry fs c # es"
    by (simp add: c')
  then show ?thesis
    using f l s err r(2)
    by (simp add: entries_def size_entries_def getEntry_def FileCollection_entries_def)
qed

theorem failed_load_stays_loaded_witness:
  "m_valid (DirectoryCollection_path fs_bad ''d'' True) \<and>
   \<not> m_entries_loaded (DirectoryCollection_path fs_bad ''d'' True) \<and>
   (\<exists>c'. loadEntries fs_bad (DirectoryCollection_path fs_bad ''d'' True) =
           (Inl IOException, c', [''d'', ''d/s'']) \<and>
         m_entries_loaded c' \<and>
         m_entries c' =
           [\<lparr>e_filename = ''d'', e_comment = '''', e_is_directory = True\<rparr>,
            \<lparr>e_filename = ''d/a'', e_comment = '''', e_is_directory = False\<rparr>,
            \<lparr>e_filename = ''d/s'', e_comment = '''', e_is_directory = True\<rparr>] \<and>
         entries fs_ok c' = (Inr (m_entries c'), c', []) \<and>
         size_entries fs_ok c' = (Inr 3, c', []))"
proof -
  have v: "m_valid (DirectoryCollection_path fs_bad ''d'' True)"
    and n: "\<not> m_entries_loaded (DirectoryCollection_path fs_bad ''d'' True)"
    by (simp_all add: DirectoryCollection_path_def fs_bad_def)
  show ?thesis
    using v n failed_load_stays_loaded [OF v n loadEntries_fs_bad, of fs_ok]
    by (simp add: loadEntries_fs_bad)
qed

end
